theory Spec2Isabelle
  imports Complex_Main "HOL-Library.Multiset"
begin

section \<open>Numbers and shared helpers\<close>

text \<open>
  The node is written in TypeScript; its numbers are IEEE doubles. The analytics only
  ever divide, scale and round integer quantities, so the model computes with exact
  rationals (\<^typ>\<open>rat\<close>) and integers: a quotient such as \<open>local / cap\<close> is the
  exact fraction. User-supplied \<open>number\<close> parameters (thresholds) are rationals.
  Decimal strings sent by the daemon (\<open>parseInt(c.capacity || '0')\<close>) are modelled by
  their integer value; an absent field is the integer the source defaults it to.
\<close>

text \<open>\<open>Math.round\<close>: the nearest integer, a tie going towards plus infinity.\<close>

definition js_round :: "rat \<Rightarrow> int" where
  "js_round x = \<lfloor>x + 1 / 2\<rfloor>"

section \<open>Data model\<close>

record htlc =
  incoming :: bool
  amount :: int
  hash_lock :: string
  expiration_height :: int

record channel =
  chan_id :: string
  channel_point :: string
  remote_pubkey :: string
  capacity :: int
  local_balance :: int
  remote_balance :: int
  active :: bool
  uptime :: int
  lifetime :: int
  pending_htlcs :: "htlc list"

text \<open>
  \<open>cap > 0 ? Math.round((local / cap) * 100) : 0\<close>, the expression every channel
  analysis starts with.
\<close>

definition local_ratio :: "int \<Rightarrow> int \<Rightarrow> int" where
  "local_ratio cap local =
     (if cap > 0 then js_round (of_int local / of_int cap * 100) else 0)"

section \<open>Channel: balanceMonitor\<close>

record balance_entry =
  bm_chan_id :: string
  bm_channel_point :: string
  bm_remote_pubkey :: string
  bm_capacity_sat :: int
  bm_local_balance_sat :: int
  bm_remote_balance_sat :: int
  bm_local_ratio_pct :: int
  bm_status :: string
  bm_active :: bool
  bm_needs_rebalance :: bool

definition balance_status :: "rat \<Rightarrow> int \<Rightarrow> string" where
  "balance_status threshold ratio =
     (if of_int ratio < threshold then ''depleted_local''
      else if of_int ratio > 100 - threshold then ''depleted_remote''
      else ''balanced'')"

definition balance_analyze :: "rat \<Rightarrow> channel \<Rightarrow> balance_entry" where
  "balance_analyze threshold c =
     (let cap = capacity c;
          local = local_balance c;
          ratio = local_ratio cap local;
          status = balance_status threshold ratio
      in \<lparr> bm_chan_id = chan_id c,
           bm_channel_point = channel_point c,
           bm_remote_pubkey = remote_pubkey c,
           bm_capacity_sat = cap,
           bm_local_balance_sat = local,
           bm_remote_balance_sat = remote_balance c,
           bm_local_ratio_pct = ratio,
           bm_status = status,
           bm_active = active c,
           bm_needs_rebalance = (status \<noteq> ''balanced'') \<rparr>)"

record balance_report =
  br_total_channels :: nat
  br_balanced_channels :: nat
  br_imbalanced_channels :: nat
  br_threshold_pct :: rat
  br_channels :: "balance_entry list"
  br_alerts :: "balance_entry list"

definition balanceMonitor :: "rat \<Rightarrow> channel list \<Rightarrow> balance_report" where
  "balanceMonitor threshold chans =
     (let analyzed = map (balance_analyze threshold) chans;
          needsAttention = filter bm_needs_rebalance analyzed
      in \<lparr> br_total_channels = length analyzed,
           br_balanced_channels = length analyzed - length needsAttention,
           br_imbalanced_channels = length needsAttention,
           br_threshold_pct = threshold,
           br_channels = analyzed,
           br_alerts = needsAttention \<rparr>)"

text \<open>The channel of the specification's end-to-end example; the identifiers are free.\<close>

definition example_channel :: channel where
  "example_channel =
     \<lparr> chan_id = ''1'', channel_point = ''ab:0'', remote_pubkey = ''02aa'',
       capacity = 1000000, local_balance = 200000, remote_balance = 800000,
       active = True, uptime = 0, lifetime = 0, pending_htlcs = [] \<rparr>"

section \<open>Channel: htlcMonitor\<close>











section \<open>Forwarding events and keyed accumulators\<close>

record fwd_event =
  chan_id_in :: "string option"
  chan_id_out :: "string option"
  fee_msat :: int
  amt_in_msat :: int
  amt_out_msat :: int
  timestamp :: int

text \<open>\<open>v || d\<close> on an optional string: an absent and an empty string both give \<open>d\<close>.\<close>

definition or_default :: "string option \<Rightarrow> string \<Rightarrow> string" where
  "or_default v d = (case v of None \<Rightarrow> d | Some s \<Rightarrow> if s = [] then d else s)"

text \<open>
  The accumulators of the source are plain objects used as dictionaries,
  \<open>Record<string, any>\<close>, read back with \<open>Object.values\<close> or \<open>Object.entries\<close>. For the
  keys in use (channel ids, which are decimal numbers above \<open>2^32\<close>, the word
  \<open>unknown\<close>, route keys, public keys in hexadecimal) a JavaScript object lists its
  properties in insertion order, so the model is an association list with distinct
  keys that grows at the end.
\<close>

type_synonym 'v dict = "(string \<times> 'v) list"

definition ensure :: "string \<Rightarrow> 'v \<Rightarrow> 'v dict \<Rightarrow> 'v dict" where
  "ensure k v m = (if map_of m k = None then m @ [(k, v)] else m)"

fun modify :: "string \<Rightarrow> ('v \<Rightarrow> 'v) \<Rightarrow> 'v dict \<Rightarrow> 'v dict" where
  "modify k f [] = []"
| "modify k f ((k', v) # m) =
     (if k' = k then (k', f v) # m else (k', v) # modify k f m)"

definition object_values :: "'v dict \<Rightarrow> 'v list" where
  "object_values m = map snd m"

section \<open>The paginated collector: getAllForwardingEvents\<close>

text \<open>
  \<open>lndRequest\<close> either resolves with the parsed reply or rejects with a
  \<open>NodeOperationError\<close> (API error, unparsable reply, connection error). The node is
  the environment: its reply may depend on everything asked so far, so it is a function
  of the requests already sent and of the request at hand. The list of requests sent is
  the effect of an operation on the network and is returned with its result.
\<close>

datatype lnd_error = LndFailure string

record switch_request =
  sq_start_time :: int
  sq_end_time :: int
  sq_num_max_events :: nat
  sq_index_offset :: nat

record switch_response =
  forwarding_events :: "fwd_event list option"
  last_offset_index :: "nat option"

type_synonym switch_node = "switch_request list \<Rightarrow> switch_request \<Rightarrow> lnd_error + switch_response"

text \<open>\<open>resp.forwarding_events || []\<close> and \<open>parseInt(resp.last_offset_index || '0')\<close>.\<close>

definition events_of :: "switch_response \<Rightarrow> fwd_event list" where
  "events_of resp = (case forwarding_events resp of None \<Rightarrow> [] | Some es \<Rightarrow> es)"

definition offset_of :: "switch_response \<Rightarrow> nat" where
  "offset_of resp = (case last_offset_index resp of None \<Rightarrow> 0 | Some i \<Rightarrow> i)"

definition switch_req :: "int \<Rightarrow> int \<Rightarrow> nat \<Rightarrow> nat \<Rightarrow> switch_request" where
  "switch_req startTime endTime pageSize indexOffset =
     \<lparr> sq_start_time = startTime, sq_end_time = endTime,
       sq_num_max_events = pageSize, sq_index_offset = indexOffset \<rparr>"

text \<open>
  The \<open>while (hasMore)\<close> loop. Nothing bounds the number of rounds, so the loop is a
  partial function: \<open>None\<close> is a collection that never returns. A rejected request
  leaves the function at once, with the error.
\<close>

partial_function (option) collect_loop ::
  "switch_node \<Rightarrow> int \<Rightarrow> int \<Rightarrow> nat \<Rightarrow> nat \<Rightarrow> fwd_event list \<Rightarrow> switch_request list
     \<Rightarrow> ((lnd_error + fwd_event list) \<times> switch_request list) option" where
  "collect_loop lnd startTime endTime pageSize indexOffset allEvents sent =
     (case lnd sent (switch_req startTime endTime pageSize indexOffset) of
        Inl err \<Rightarrow> Some (Inl err, sent @ [switch_req startTime endTime pageSize indexOffset])
      | Inr resp \<Rightarrow>
          if length (events_of resp) < pageSize
          then Some (Inr (allEvents @ events_of resp),
                     sent @ [switch_req startTime endTime pageSize indexOffset])
          else collect_loop lnd startTime endTime pageSize (offset_of resp)
                 (allEvents @ events_of resp)
                 (sent @ [switch_req startTime endTime pageSize indexOffset]))"

definition getAllForwardingEvents ::
  "switch_node \<Rightarrow> int \<Rightarrow> int
     \<Rightarrow> ((lnd_error + fwd_event list) \<times> switch_request list) option" where
  "getAllForwardingEvents lnd startTime endTime =
     collect_loop lnd startTime endTime 10000 0 [] []"

subsection \<open>The dialogue with the node, round by round\<close>

text \<open>
  To say what the collector does, the dialogue is unrolled independently of the loop: a
  position is the list of requests sent so far with the offset of the next request, and
  one round sends the request and takes the next offset from the reply.
\<close>

definition next_offset :: "lnd_error + switch_response \<Rightarrow> nat" where
  "next_offset r = (case r of Inl err \<Rightarrow> 0 | Inr resp \<Rightarrow> offset_of resp)"

definition turn ::
  "switch_node \<Rightarrow> int \<Rightarrow> int \<Rightarrow> nat \<Rightarrow> switch_request list \<times> nat \<Rightarrow> switch_request list \<times> nat" where
  "turn lnd startTime endTime pageSize pos =
     (fst pos @ [switch_req startTime endTime pageSize (snd pos)],
      next_offset (lnd (fst pos) (switch_req startTime endTime pageSize (snd pos))))"

definition reply_from ::
  "switch_node \<Rightarrow> int \<Rightarrow> int \<Rightarrow> nat \<Rightarrow> switch_request list \<times> nat \<Rightarrow> nat
     \<Rightarrow> lnd_error + switch_response" where
  "reply_from lnd startTime endTime pageSize pos k =
     (let p = (turn lnd startTime endTime pageSize ^^ k) pos
      in lnd (fst p) (switch_req startTime endTime pageSize (snd p)))"

definition full_page :: "nat \<Rightarrow> lnd_error + switch_response \<Rightarrow> bool" where
  "full_page pageSize r =
     (case r of Inl err \<Rightarrow> False | Inr resp \<Rightarrow> \<not> length (events_of resp) < pageSize)"

definition short_page :: "nat \<Rightarrow> lnd_error + switch_response \<Rightarrow> bool" where
  "short_page pageSize r =
     (case r of Inl err \<Rightarrow> False | Inr resp \<Rightarrow> length (events_of resp) < pageSize)"

definition page_of :: "lnd_error + switch_response \<Rightarrow> fwd_event list" where
  "page_of r = (case r of Inl err \<Rightarrow> [] | Inr resp \<Rightarrow> events_of resp)"

text \<open>The dialogue of a whole collection: it starts with nothing sent, at offset 0.\<close>

definition offset_at :: "switch_node \<Rightarrow> int \<Rightarrow> int \<Rightarrow> nat \<Rightarrow> nat" where
  "offset_at lnd startTime endTime k = snd ((turn lnd startTime endTime 10000 ^^ k) ([], 0))"

definition reply_at :: "switch_node \<Rightarrow> int \<Rightarrow> int \<Rightarrow> nat \<Rightarrow> lnd_error + switch_response" where
  "reply_at lnd startTime endTime k = reply_from lnd startTime endTime 10000 ([], 0) k"

text \<open>
  A well-behaved source holding the list \<open>es\<close> of events of the window: it serves the
  events from the requested offset, up to the requested number, and reports the offset
  after the last one served.
\<close>

definition list_source :: "fwd_event list \<Rightarrow> switch_node" where
  "list_source es sent req =
     (let served = take (sq_num_max_events req) (drop (sq_index_offset req) es)
      in Inr \<lparr> forwarding_events = Some served,
               last_offset_index = Some (sq_index_offset req + length served) \<rparr>)"

section \<open>Routing: forwardingSummary\<close>

record chan_stat =
  cs_chan_id :: string
  cs_forwards_in :: nat
  cs_forwards_out :: nat
  cs_fee_earned_msat :: int
  cs_amount_routed_in_msat :: int
  cs_amount_routed_out_msat :: int

definition empty_stat :: "string \<Rightarrow> chan_stat" where
  "empty_stat k =
     \<lparr> cs_chan_id = k, cs_forwards_in = 0, cs_forwards_out = 0, cs_fee_earned_msat = 0,
       cs_amount_routed_in_msat = 0, cs_amount_routed_out_msat = 0 \<rparr>"

text \<open>The body of \<open>for (const e of events)\<close>, one assignment after the other.\<close>

definition summary_step :: "chan_stat dict \<Rightarrow> fwd_event \<Rightarrow> chan_stat dict" where
  "summary_step chanStats e =
     (let inChan = or_default (chan_id_in e) ''unknown'';
          outChan = or_default (chan_id_out e) ''unknown'';
          feeMsat = fee_msat e;
          amtIn = amt_in_msat e;
          amtOut = amt_out_msat e;
          s1 = ensure inChan (empty_stat inChan) chanStats;
          s2 = ensure outChan (empty_stat outChan) s1;
          s3 = modify inChan (\<lambda>s. s\<lparr>cs_forwards_in := cs_forwards_in s + 1\<rparr>) s2;
          s4 = modify inChan
                 (\<lambda>s. s\<lparr>cs_amount_routed_in_msat := cs_amount_routed_in_msat s + amtIn\<rparr>) s3;
          s5 = modify outChan (\<lambda>s. s\<lparr>cs_forwards_out := cs_forwards_out s + 1\<rparr>) s4;
          s6 = modify outChan
                 (\<lambda>s. s\<lparr>cs_fee_earned_msat := cs_fee_earned_msat s + feeMsat\<rparr>) s5;
          s7 = modify outChan
                 (\<lambda>s. s\<lparr>cs_amount_routed_out_msat := cs_amount_routed_out_msat s + amtOut\<rparr>) s6
      in s7)"

record summary_entry =
  se_chan_id :: string
  se_forwards_in :: nat
  se_forwards_out :: nat
  se_fee_earned_msat :: int
  se_amount_routed_in_msat :: int
  se_amount_routed_out_msat :: int
  se_fee_earned_sat :: int
  se_total_forwards :: nat

definition summary_of :: "chan_stat \<Rightarrow> summary_entry" where
  "summary_of s =
     \<lparr> se_chan_id = cs_chan_id s,
       se_forwards_in = cs_forwards_in s,
       se_forwards_out = cs_forwards_out s,
       se_fee_earned_msat = cs_fee_earned_msat s,
       se_amount_routed_in_msat = cs_amount_routed_in_msat s,
       se_amount_routed_out_msat = cs_amount_routed_out_msat s,
       se_fee_earned_sat = cs_fee_earned_msat s div 1000,
       se_total_forwards = cs_forwards_in s + cs_forwards_out s \<rparr>"

record forwarding_summary =
  fs_total_events :: nat
  fs_total_fee_earned_msat :: int
  fs_total_fee_earned_sat :: int
  fs_unique_channels :: nat
  fs_start_time :: int
  fs_end_time :: int
  fs_channel_summary :: "summary_entry list"

text \<open>
  \<open>Array.prototype.sort\<close> with the comparator \<open>b.fee_earned_msat - a.fee_earned_msat\<close>
  is a stable sort into descending order of the fee: \<^const>\<open>sort_key\<close> on the negated
  fee. The events are those the paginated collector returned for the time window.
\<close>

definition forwardingSummary :: "int \<Rightarrow> int \<Rightarrow> fwd_event list \<Rightarrow> forwarding_summary" where
  "forwardingSummary startTime endTime events =
     (let chanStats = foldl summary_step [] events;
          summary = sort_key (\<lambda>s. - se_fee_earned_msat s)
                      (map summary_of (object_values chanStats));
          totalFee = foldl (\<lambda>s c. s + se_fee_earned_msat c) 0 summary
      in \<lparr> fs_total_events = length events,
           fs_total_fee_earned_msat = totalFee,
           fs_total_fee_earned_sat = totalFee div 1000,
           fs_unique_channels = length summary,
           fs_start_time = startTime,
           fs_end_time = endTime,
           fs_channel_summary = summary \<rparr>)"

text \<open>
  For the statement of results: the fee an accumulator holds for a channel, the fees of
  the events whose outbound leg is a given channel, and the shape the accumulator keeps
  (one entry per key, each entry carrying its key as \<open>chan_id\<close>).
\<close>

definition fee_credit :: "chan_stat dict \<Rightarrow> string \<Rightarrow> int" where
  "fee_credit m k = (case map_of m k of None \<Rightarrow> 0 | Some v \<Rightarrow> cs_fee_earned_msat v)"

definition out_fees :: "fwd_event list \<Rightarrow> string \<Rightarrow> int" where
  "out_fees events k =
     sum_list (map fee_msat (filter (\<lambda>e. or_default (chan_id_out e) ''unknown'' = k) events))"

definition stat_inv :: "chan_stat dict \<Rightarrow> bool" where
  "stat_inv m \<longleftrightarrow> distinct (map fst m) \<and> (\<forall>p \<in> set m. cs_chan_id (snd p) = fst p)"

section \<open>Routing: dustAnalysis\<close>

text \<open>\<open>Math.floor(parseInt(e.amt_out_msat || '0') / 1000)\<close>.\<close>

definition amtOutSat :: "fwd_event \<Rightarrow> int" where
  "amtOutSat e = amt_out_msat e div 1000"

definition dustEvents :: "rat \<Rightarrow> fwd_event list \<Rightarrow> fwd_event list" where
  "dustEvents dustThresholdSat events =
     filter (\<lambda>e. of_int (amtOutSat e) \<le> dustThresholdSat) events"

text \<open>The second filter, written inline where the fee of the normal forwards is summed.\<close>

definition normalEvents :: "rat \<Rightarrow> fwd_event list \<Rightarrow> fwd_event list" where
  "normalEvents dustThresholdSat events =
     filter (\<lambda>e. of_int (amtOutSat e) > dustThresholdSat) events"

record route_stat =
  rs_route :: string
  rs_chan_id_in :: string
  rs_chan_id_out :: string
  rs_dust_forward_count :: nat
  rs_total_dust_amount_msat :: int
  rs_total_dust_fee_msat :: int
  rs_min_amount_sat :: "int option"
  rs_max_amount_sat :: int

text \<open>\<open>min_amount_sat\<close> starts at \<open>Infinity\<close>, written \<open>None\<close>.\<close>

definition route_step :: "route_stat dict \<Rightarrow> fwd_event \<Rightarrow> route_stat dict" where
  "route_step chanDustStats e =
     (let inChan = or_default (chan_id_in e) ''unknown'';
          outChan = or_default (chan_id_out e) ''unknown'';
          key = inChan @ ''->'' @ outChan;
          amtOutMsat = amt_out_msat e;
          feeMsat = fee_msat e;
          s1 = ensure key
                 \<lparr> rs_route = key, rs_chan_id_in = inChan, rs_chan_id_out = outChan,
                   rs_dust_forward_count = 0, rs_total_dust_amount_msat = 0,
                   rs_total_dust_fee_msat = 0, rs_min_amount_sat = None,
                   rs_max_amount_sat = 0 \<rparr> chanDustStats;
          s2 = modify key (\<lambda>r. r\<lparr>rs_dust_forward_count := rs_dust_forward_count r + 1\<rparr>) s1;
          s3 = modify key
                 (\<lambda>r. r\<lparr>rs_total_dust_amount_msat := rs_total_dust_amount_msat r + amtOutMsat\<rparr>) s2;
          s4 = modify key
                 (\<lambda>r. r\<lparr>rs_total_dust_fee_msat := rs_total_dust_fee_msat r + feeMsat\<rparr>) s3;
          amtSat = amtOutMsat div 1000;
          s5 = modify key
                 (\<lambda>r. case rs_min_amount_sat r of
                         None \<Rightarrow> r\<lparr>rs_min_amount_sat := Some amtSat\<rparr>
                       | Some m \<Rightarrow> if amtSat < m then r\<lparr>rs_min_amount_sat := Some amtSat\<rparr> else r) s4;
          s6 = modify key
                 (\<lambda>r. if amtSat > rs_max_amount_sat r then r\<lparr>rs_max_amount_sat := amtSat\<rparr> else r) s5
      in s6)"

definition inbound_step :: "nat dict \<Rightarrow> fwd_event \<Rightarrow> nat dict" where
  "inbound_step inboundDust e =
     (let inChan = or_default (chan_id_in e) ''unknown''
      in modify inChan (\<lambda>n. n + 1) (ensure inChan 0 inboundDust))"

record suspicious_route =
  sr_route :: string
  sr_chan_id_in :: string
  sr_chan_id_out :: string
  sr_dust_forward_count :: nat
  sr_total_dust_amount_msat :: int
  sr_total_dust_fee_msat :: int
  sr_min_amount_sat :: int
  sr_max_amount_sat :: int
  sr_total_dust_amount_sat :: int
  sr_total_dust_fee_sat :: int
  sr_avg_amount_sat :: int
  sr_suspicious :: bool

definition suspicious_of :: "route_stat \<Rightarrow> suspicious_route" where
  "suspicious_of r =
     \<lparr> sr_route = rs_route r,
       sr_chan_id_in = rs_chan_id_in r,
       sr_chan_id_out = rs_chan_id_out r,
       sr_dust_forward_count = rs_dust_forward_count r,
       sr_total_dust_amount_msat = rs_total_dust_amount_msat r,
       sr_total_dust_fee_msat = rs_total_dust_fee_msat r,
       sr_min_amount_sat = (case rs_min_amount_sat r of None \<Rightarrow> 0 | Some m \<Rightarrow> m),
       sr_max_amount_sat = rs_max_amount_sat r,
       sr_total_dust_amount_sat = rs_total_dust_amount_msat r div 1000,
       sr_total_dust_fee_sat = rs_total_dust_fee_msat r div 1000,
       sr_avg_amount_sat =
         (if rs_dust_forward_count r > 0
          then \<lfloor>(of_int (rs_total_dust_amount_msat r) :: rat)
                 / of_nat (rs_dust_forward_count r) / 1000\<rfloor>
          else 0),
       sr_suspicious = True \<rparr>"

record recommendation =
  rc_action :: string
  rc_chan_id :: string
  rc_dust_count :: nat
  rc_suggested_min_htlc_msat :: rat

record dust_report =
  da_dust_threshold_sat :: rat
  da_suspicious_rate_threshold :: rat
  da_total_forwards :: nat
  da_total_dust_forwards :: nat
  da_dust_percentage :: int
  da_total_dust_fee_earned_msat :: int
  da_total_dust_fee_earned_sat :: int
  da_total_normal_fee_earned_msat :: int
  da_total_normal_fee_earned_sat :: int
  da_fee_efficiency_pct :: "int option"
  da_suspicious_routes_count :: nat
  da_suspicious_inbound_channels :: nat
  da_alert_kind :: string
  da_recommendations :: "recommendation list"
  da_suspicious_routes :: "suspicious_route list"
  da_suspicious_inbound_details :: "(string \<times> nat) list"

text \<open>
  The report strings that embed numbers are kept by their fixed part; the fee
  efficiency warning is kept by its percentage, \<open>None\<close> standing for \<open>null\<close>.
\<close>

definition dustAnalysis :: "rat \<Rightarrow> rat \<Rightarrow> fwd_event list \<Rightarrow> dust_report" where
  "dustAnalysis dustThresholdSat suspiciousThreshold events =
     (let dust = dustEvents dustThresholdSat events;
          chanDustStats = foldl route_step [] dust;
          inboundDust = foldl inbound_step [] dust;
          suspiciousRoutes =
            sort_key (\<lambda>r. - int (sr_dust_forward_count r))
              (map suspicious_of
                 (filter (\<lambda>r. of_nat (rs_dust_forward_count r) \<ge> suspiciousThreshold)
                    (object_values chanDustStats)));
          suspiciousInbound =
            sort_key (\<lambda>(chanId, count). - int count)
              (filter (\<lambda>(chanId, count). of_nat count \<ge> suspiciousThreshold) inboundDust);
          totalDustFee = foldl (\<lambda>s e. s + fee_msat e) 0 dust;
          totalNormalFee =
            foldl (\<lambda>s e. s + fee_msat e) 0 (normalEvents dustThresholdSat events)
      in \<lparr> da_dust_threshold_sat = dustThresholdSat,
           da_suspicious_rate_threshold = suspiciousThreshold,
           da_total_forwards = length events,
           da_total_dust_forwards = length dust,
           da_dust_percentage =
             (if length events > 0
              then js_round (of_nat (length dust) / of_nat (length events) * 100) else 0),
           da_total_dust_fee_earned_msat = totalDustFee,
           da_total_dust_fee_earned_sat = totalDustFee div 1000,
           da_total_normal_fee_earned_msat = totalNormalFee,
           da_total_normal_fee_earned_sat = totalNormalFee div 1000,
           da_fee_efficiency_pct =
             (if totalDustFee > 0 \<and> totalNormalFee > 0
              then Some (js_round (of_int totalDustFee
                                   / of_int (totalDustFee + totalNormalFee) * 100))
              else None),
           da_suspicious_routes_count = length suspiciousRoutes,
           da_suspicious_inbound_channels = length suspiciousInbound,
           da_alert_kind =
             (if length suspiciousRoutes > 0 then ''DUST ATTACK WARNING''
              else ''No suspicious dust patterns detected''),
           da_recommendations =
             (if length suspiciousInbound > 0
              then map (\<lambda>(chanId, count).
                          \<lparr> rc_action = ''increase_min_htlc'', rc_chan_id = chanId,
                            rc_dust_count = count,
                            rc_suggested_min_htlc_msat = dustThresholdSat * 1000 \<rparr>)
                       suspiciousInbound
              else []),
           da_suspicious_routes = suspiciousRoutes,
           da_suspicious_inbound_details = suspiciousInbound \<rparr>)"

section \<open>Rebalance: suggestRebalances\<close>

record rebalance_entry =
  re_chan_id :: string
  re_channel_point :: string
  re_remote_pubkey :: string
  re_capacity_sat :: int
  re_local_balance_sat :: int
  re_local_ratio_pct :: int
  re_target_ratio_pct :: rat
  re_deviation_pct :: rat
  re_amount_to_move_sat :: int

text \<open>
  The scan over the channels, pushing an entry to \<open>sources\<close> or to \<open>sinks\<close>;
  \<open>continue\<close> skips an inactive channel.
\<close>

fun rebalance_scan ::
  "rat \<Rightarrow> rat \<Rightarrow> channel list \<Rightarrow> rebalance_entry list \<times> rebalance_entry list
     \<Rightarrow> rebalance_entry list \<times> rebalance_entry list" where
  "rebalance_scan targetRatio minDeviation [] (sources, sinks) = (sources, sinks)"
| "rebalance_scan targetRatio minDeviation (c # cs) (sources, sinks) =
     (if \<not> active c then rebalance_scan targetRatio minDeviation cs (sources, sinks)
      else
        let cap = capacity c;
            local = local_balance c;
            ratio = local_ratio cap local;
            deviation = \<bar>of_int ratio - targetRatio\<bar>
        in if deviation \<ge> minDeviation then
             let idealLocal = js_round (of_int cap * (targetRatio / 100));
                 diff = local - idealLocal;
                 entry = \<lparr> re_chan_id = chan_id c,
                           re_channel_point = channel_point c,
                           re_remote_pubkey = remote_pubkey c,
                           re_capacity_sat = cap,
                           re_local_balance_sat = local,
                           re_local_ratio_pct = ratio,
                           re_target_ratio_pct = targetRatio,
                           re_deviation_pct = deviation,
                           re_amount_to_move_sat = \<bar>diff\<bar> \<rparr>
             in if diff > 0
                then rebalance_scan targetRatio minDeviation cs (sources @ [entry], sinks)
                else rebalance_scan targetRatio minDeviation cs (sources, sinks @ [entry])
           else rebalance_scan targetRatio minDeviation cs (sources, sinks))"

record rebalance_suggestion =
  from_channel :: string
  from_pubkey :: string
  from_local_ratio_pct :: int
  to_channel :: string
  to_pubkey :: string
  to_local_ratio_pct :: int
  suggested_amount_sat :: int

text \<open>
  The pairing loop, \<open>for (let si = 0; si < Math.min(sources.length, sinks.length); si++)\<close>:
  one suggestion per index, in index order. Both reads are in range.
\<close>

definition pair_at :: "rebalance_entry list \<Rightarrow> rebalance_entry list \<Rightarrow> nat \<Rightarrow> rebalance_suggestion" where
  "pair_at sources sinks si =
     (let amount = min (re_amount_to_move_sat (sources ! si)) (re_amount_to_move_sat (sinks ! si))
      in \<lparr> from_channel = re_chan_id (sources ! si),
           from_pubkey = re_remote_pubkey (sources ! si),
           from_local_ratio_pct = re_local_ratio_pct (sources ! si),
           to_channel = re_chan_id (sinks ! si),
           to_pubkey = re_remote_pubkey (sinks ! si),
           to_local_ratio_pct = re_local_ratio_pct (sinks ! si),
           suggested_amount_sat = amount \<rparr>)"

record rebalance_plan =
  rp_target_ratio_pct :: rat
  rp_min_deviation_pct :: rat
  rp_channels_need_outflow :: nat
  rp_channels_need_inflow :: nat
  rp_suggested_rebalances :: "rebalance_suggestion list"
  rp_sources :: "rebalance_entry list"
  rp_sinks :: "rebalance_entry list"

definition suggestRebalances :: "rat \<Rightarrow> rat \<Rightarrow> channel list \<Rightarrow> rebalance_plan" where
  "suggestRebalances targetRatio minDeviation chans =
     (let (sources, sinks) = rebalance_scan targetRatio minDeviation chans ([], []);
          suggestions =
            map (pair_at sources sinks) [0 ..< min (length sources) (length sinks)]
      in \<lparr> rp_target_ratio_pct = targetRatio,
           rp_min_deviation_pct = minDeviation,
           rp_channels_need_outflow = length sources,
           rp_channels_need_inflow = length sinks,
           rp_suggested_rebalances = suggestions,
           rp_sources = sources,
           rp_sinks = sinks \<rparr>)"

section \<open>Peer: peerScoring\<close>












section \<open>Strings, as the operations on user input need them\<close>

text \<open>
  Strings are byte strings. \<open>s.split(':')\<close> always yields at least one part.
\<close>

fun split_on :: "char \<Rightarrow> string \<Rightarrow> string list" where
  "split_on c [] = [[]]"
| "split_on c (x # xs) =
     (if x = c then [] # split_on c xs
      else (case split_on c xs of [] \<Rightarrow> [[x]] | p # ps \<Rightarrow> (x # p) # ps))"

text \<open>
  \<open>const [a, b] = s.split(':')\<close>: the first part, and the second one if there is one
  (\<open>undefined\<close> otherwise).
\<close>

definition first_two :: "string \<Rightarrow> string \<times> string option" where
  "first_two s =
     (case split_on CHR '':'' s of
        [] \<Rightarrow> ([], None)
      | [a] \<Rightarrow> (a, None)
      | a # b # rest \<Rightarrow> (a, Some b))"

text \<open>White space, for \<open>trim\<close> and \<open>parseInt\<close>: the ASCII part of it.\<close>

definition is_ws :: "char \<Rightarrow> bool" where
  "is_ws c = (c \<in> set [CHR 0x09, CHR 0x0A, CHR 0x0B, CHR 0x0C, CHR 0x0D, CHR 0x20])"


definition digit_of :: "nat \<Rightarrow> char \<Rightarrow> nat option" where
  "digit_of radix c =
     (let n = (of_char c :: nat);
          v = (if 48 \<le> n \<and> n \<le> 57 then Some (n - 48)
               else if 97 \<le> n \<and> n \<le> 122 then Some (n - 87)
               else if 65 \<le> n \<and> n \<le> 90 then Some (n - 55)
               else None)
      in case v of None \<Rightarrow> None | Some d \<Rightarrow> if d < radix then Some d else None)"

text \<open>
  \<open>parseInt\<close> without a radix: leading white space, an optional sign, an optional
  \<open>0x\<close>, then the longest run of digits; \<open>NaN\<close>, written \<open>None\<close>, when there is no
  digit. \<open>parseInt(undefined)\<close> is \<open>NaN\<close> as well.
\<close>

definition parseInt :: "string \<Rightarrow> int option" where
  "parseInt s =
     (let t = dropWhile is_ws s;
          neg = (case t of [] \<Rightarrow> False | c # r \<Rightarrow> c = CHR ''-'');
          u = (case t of [] \<Rightarrow> [] | c # r \<Rightarrow> if c = CHR ''-'' \<or> c = CHR ''+'' then r else t);
          hex = (take 2 u = ''0x'' \<or> take 2 u = ''0X'');
          radix = (if hex then 16 else 10);
          v = (if hex then drop 2 u else u);
          ds = takeWhile (\<lambda>c. digit_of radix c \<noteq> None) v;
          n = foldl (\<lambda>a c. a * radix + (case digit_of radix c of None \<Rightarrow> 0 | Some d \<Rightarrow> d)) 0 ds
      in if ds = [] then None else Some (if neg then - int n else int n))"

definition parseInt_opt :: "string option \<Rightarrow> int option" where
  "parseInt_opt v = (case v of None \<Rightarrow> None | Some s \<Rightarrow> parseInt s)"







section \<open>Channel policy updates\<close>

text \<open>
  The body of \<open>POST /v1/chanpolicy\<close>. An absent key is \<open>None\<close> (or \<open>False\<close> for
  \<open>global\<close>); \<open>output_index\<close> is \<open>None\<close> when \<open>parseInt\<close> gave \<open>NaN\<close>. The amounts are
  sent as the decimal text of a number; the model keeps the number.
\<close>

record chan_point =
  funding_txid_str :: string
  output_index :: "int option"

record policy_request =
  pq_chan_point :: "chan_point option"
  pq_global :: bool
  pq_base_fee_msat :: rat
  pq_fee_rate_ppm :: rat
  pq_time_lock_delta :: int
  pq_min_htlc_msat :: "rat option"
  pq_min_htlc_msat_specified :: bool

type_synonym policy_node = "policy_request list \<Rightarrow> policy_request \<Rightarrow> lnd_error + unit"

definition chan_point_of :: "string \<Rightarrow> chan_point" where
  "chan_point_of cp =
     (let (fundingTxid, outputIndex) = first_two cp
      in \<lparr> funding_txid_str = fundingTxid, output_index = parseInt_opt outputIndex \<rparr>)"

subsection \<open>Fee: autoFeeSuggestion\<close>

record fee_suggestion =
  fg_chan_id :: string
  fg_channel_point :: string
  fg_remote_pubkey :: string
  fg_capacity_sat :: int
  fg_local_balance_sat :: int
  fg_local_ratio_pct :: int
  fg_suggested_fee_rate_ppm :: rat
  fg_suggested_base_fee_msat :: rat
  fg_reason :: string

definition suggest_fee :: "rat \<Rightarrow> rat \<Rightarrow> rat \<Rightarrow> rat \<Rightarrow> channel \<Rightarrow> fee_suggestion" where
  "suggest_fee lowFee balFee highFee autoBase c =
     (let cap = capacity c;
          local = local_balance c;
          ratio = local_ratio cap local;
          (suggestedPpm, reason) =
            (if ratio < 30 then (lowFee, ''Low local balance - high fee to discourage drain'')
             else if ratio > 70
             then (highFee, ''High local balance - low fee to encourage outflow'')
             else (balFee, ''Well balanced - standard fee''))
      in \<lparr> fg_chan_id = chan_id c,
           fg_channel_point = channel_point c,
           fg_remote_pubkey = remote_pubkey c,
           fg_capacity_sat = cap,
           fg_local_balance_sat = local,
           fg_local_ratio_pct = ratio,
           fg_suggested_fee_rate_ppm = suggestedPpm,
           fg_suggested_base_fee_msat = autoBase,
           fg_reason = reason \<rparr>)"

definition suggestion_request :: "fee_suggestion \<Rightarrow> policy_request" where
  "suggestion_request s =
     \<lparr> pq_chan_point = Some (chan_point_of (fg_channel_point s)),
       pq_global = False,
       pq_base_fee_msat = fg_suggested_base_fee_msat s,
       pq_fee_rate_ppm = fg_suggested_fee_rate_ppm s,
       pq_time_lock_delta = 40,
       pq_min_htlc_msat = None,
       pq_min_htlc_msat_specified = False \<rparr>"

text \<open>
  \<open>for (const s of suggestions) { ...; await lndRequest(...); }\<close>: there is no
  \<open>try\<close> around the request, so a rejection leaves the loop and the operation.
\<close>

fun apply_suggestions ::
  "policy_node \<Rightarrow> fee_suggestion list \<Rightarrow> policy_request list
     \<Rightarrow> (lnd_error + unit) \<times> policy_request list" where
  "apply_suggestions lnd [] sent = (Inr (), sent)"
| "apply_suggestions lnd (s # ss) sent =
     (case lnd sent (suggestion_request s) of
        Inl err \<Rightarrow> (Inl err, sent @ [suggestion_request s])
      | Inr ok \<Rightarrow> apply_suggestions lnd ss (sent @ [suggestion_request s]))"

record fee_report =
  fr_total_channels :: nat
  fr_applied :: bool
  fr_suggestions :: "fee_suggestion list"

text \<open>
  The operation on the channels listed by the node; it returns the report, or the error
  that ended it, and the policy updates it sent.
\<close>

definition autoFeeSuggestion ::
  "policy_node \<Rightarrow> rat \<Rightarrow> rat \<Rightarrow> rat \<Rightarrow> rat \<Rightarrow> bool \<Rightarrow> channel list
     \<Rightarrow> (lnd_error + fee_report) \<times> policy_request list" where
  "autoFeeSuggestion lnd lowFee balFee highFee autoBase apply chans =
     (let suggestions = map (suggest_fee lowFee balFee highFee autoBase) chans;
          report = \<lparr> fr_total_channels = length suggestions, fr_applied = apply,
                     fr_suggestions = suggestions \<rparr>
      in if apply
         then (case apply_suggestions lnd suggestions [] of
                 (Inl err, sent) \<Rightarrow> (Inl err, sent)
               | (Inr ok, sent) \<Rightarrow> (Inr report, sent))
         else (Inr report, []))"

text \<open>The updates of a whole batch, one per channel and in the order of the channels.\<close>

definition fee_requests :: "rat \<Rightarrow> rat \<Rightarrow> rat \<Rightarrow> rat \<Rightarrow> channel list \<Rightarrow> policy_request list" where
  "fee_requests lowFee balFee highFee autoBase chans =
     map suggestion_request (map (suggest_fee lowFee balFee highFee autoBase) chans)"

text \<open>A node that rejects every update of the channel funded by \<open>aa11\<close>.\<close>

definition rejecting_node :: policy_node where
  "rejecting_node sent req =
     (if map_option funding_txid_str (pq_chan_point req) = Some ''aa11''
      then Inl (LndFailure ''LND API error (500): channel not found'')
      else Inr ())"


subsection \<open>Channel: updateMinHtlc\<close>

text \<open>
  The operation first reads the fee report (\<open>GET /v1/fees\<close>); the model starts from
  its \<open>channel_fees\<close>, the empty list when the report has none.
\<close>





section \<open>Wallet: detectDustUtxos, leaseOutput, releaseOutput\<close>

























section \<open>Example inputs\<close>

definition small_forward :: fwd_event where
  "small_forward =
     \<lparr> chan_id_in = Some ''770000000000000001'', chan_id_out = Some ''770000000000000002'',
       fee_msat = 1, amt_in_msat = 50001, amt_out_msat = 50000, timestamp = 1700000000 \<rparr>"

definition large_forward :: fwd_event where
  "large_forward =
     \<lparr> chan_id_in = Some ''770000000000000002'', chan_id_out = None,
       fee_msat = 2500, amt_in_msat = 200002500, amt_out_msat = 200000000,
       timestamp = 1700000100 \<rparr>"

definition rich_channel :: channel where
  "rich_channel =
     \<lparr> chan_id = ''770000000000000001'', channel_point = ''aa11:0'', remote_pubkey = ''02aa'',
       capacity = 1000000, local_balance = 900000, remote_balance = 100000,
       active = True, uptime = 90, lifetime = 100, pending_htlcs = [] \<rparr>"

definition poor_channel :: channel where
  "poor_channel =
     \<lparr> chan_id = ''770000000000000002'', channel_point = ''bb22:1'', remote_pubkey = ''03bb'',
       capacity = 2000000, local_balance = 200000, remote_balance = 1800000,
       active = True, uptime = 50, lifetime = 100, pending_htlcs = [] \<rparr>"

section \<open>Results: channel monitors\<close>




lemma js_round_frac:
  assumes "b > 0"
  shows "js_round (of_int a / of_int b * of_int k) = (2 * a * k + b) div (2 * b)"
proof -
  have "(of_int a / of_int b * of_int k + 1 / 2 :: rat) = of_int (2 * a * k + b) / of_int (2 * b)"
    using assms by (simp add: field_simps)
  then show ?thesis
    unfolding js_round_def by (simp only: floor_divide_of_int_eq)
qed

lemma local_ratio_int:
  "local_ratio cap local = (if cap > 0 then (200 * local + cap) div (2 * cap) else 0)"
  using js_round_frac [of cap local 100] by (simp add: local_ratio_def)

lemma balance_analyze_example:
  "balance_analyze 20 example_channel =
      \<lparr> bm_chan_id = ''1'', bm_channel_point = ''ab:0'', bm_remote_pubkey = ''02aa'',
        bm_capacity_sat = 1000000, bm_local_balance_sat = 200000,
        bm_remote_balance_sat = 800000, bm_local_ratio_pct = 20, bm_status = ''balanced'',
        bm_active = True, bm_needs_rebalance = False \<rparr>"
  by (simp add: balance_analyze_def balance_status_def example_channel_def
      local_ratio_int Let_def)

lemma balance_analyze_rule:
  "(bm_status (balance_analyze t c) = ''depleted_local'' \<longleftrightarrow>
      of_int (bm_local_ratio_pct (balance_analyze t c)) < t)
   \<and> (bm_status (balance_analyze t c) = ''depleted_remote'' \<longleftrightarrow>
        \<not> of_int (bm_local_ratio_pct (balance_analyze t c)) < t
        \<and> of_int (bm_local_ratio_pct (balance_analyze t c)) > 100 - t)
   \<and> (bm_status (balance_analyze t c) = ''balanced'' \<longleftrightarrow>
        \<not> of_int (bm_local_ratio_pct (balance_analyze t c)) < t
        \<and> \<not> of_int (bm_local_ratio_pct (balance_analyze t c)) > 100 - t)
   \<and> (t \<le> 50 \<longrightarrow>
        (bm_status (balance_analyze t c) = ''depleted_remote'' \<longleftrightarrow>
         of_int (bm_local_ratio_pct (balance_analyze t c)) > 100 - t))"
  by (simp add: balance_analyze_def balance_status_def Let_def)

text \<open>
  Claim C3, as written: for the single channel with capacity 1,000,000 and local balance
  200,000 under threshold 20 the monitor computes ratio 20 and status
  \<open>depleted_local\<close>. The code does not: the ratio is 20, and \<open>20 < 20\<close> is false.
\<close>

theorem balance_example_counterexample:
  "\<not> (map bm_local_ratio_pct (br_channels (balanceMonitor 20 [example_channel])) = [20]
      \<and> map bm_status (br_channels (balanceMonitor 20 [example_channel])) = [''depleted_local''])"
  by (simp add: balanceMonitor_def balance_analyze_example Let_def)

text \<open>
  Claim C3, amended: for that input the balance monitor computes \<open>local_ratio_pct = 20\<close>
  and reports status \<open>balanced\<close>, with no alert. The classification is first-match:
  \<open>depleted_local\<close> iff the ratio is strictly below the threshold; \<open>depleted_remote\<close>
  iff it is not below the threshold and is above \<open>100 - threshold\<close> (for a threshold of
  at most 50 simply iff it is above \<open>100 - threshold\<close>); \<open>balanced\<close> otherwise.
\<close>

theorem balance_example_and_rule:
  "map bm_local_ratio_pct (br_channels (balanceMonitor 20 [example_channel])) = [20]
   \<and> map bm_status (br_channels (balanceMonitor 20 [example_channel])) = [''balanced'']
   \<and> br_alerts (balanceMonitor 20 [example_channel]) = []
   \<and> (\<forall>e \<in> set (br_channels (balanceMonitor t chans)).
        (bm_status e = ''depleted_local'' \<longleftrightarrow> of_int (bm_local_ratio_pct e) < t)
      \<and> (bm_status e = ''depleted_remote'' \<longleftrightarrow>
           \<not> of_int (bm_local_ratio_pct e) < t \<and> of_int (bm_local_ratio_pct e) > 100 - t)
      \<and> (bm_status e = ''balanced'' \<longleftrightarrow>
           \<not> of_int (bm_local_ratio_pct e) < t \<and> \<not> of_int (bm_local_ratio_pct e) > 100 - t)
      \<and> (t \<le> 50 \<longrightarrow>
           (bm_status e = ''depleted_remote'' \<longleftrightarrow> of_int (bm_local_ratio_pct e) > 100 - t)))"
  using balance_analyze_rule [of t]
  by (auto simp: balanceMonitor_def balance_analyze_example Let_def)

theorem balance_example_and_rule_witness:
  "balance_analyze 20 example_channel \<in> set (br_channels (balanceMonitor 20 [example_channel]))
   \<and> (20 :: rat) \<le> 50
   \<and> bm_local_ratio_pct (balance_analyze 20 example_channel) = 20
   \<and> bm_status (balance_analyze 20 example_channel) \<noteq> ''depleted_local''
   \<and> bm_status (balance_analyze 20 example_channel) \<noteq> ''depleted_remote''"
  using balance_example_and_rule [of 20 "[example_channel]"]
  by (simp add: balanceMonitor_def Let_def)






section \<open>Results: keyed accumulators\<close>

lemma modify_keys: "map fst (modify k f m) = map fst m"
  by (induction m) auto

lemma modify_dom: "k' \<in> fst ` set m \<Longrightarrow> k' \<in> fst ` set (modify k f m)"
  by (metis modify_keys set_map)

lemma ensure_present: "k \<in> fst ` set (ensure k v m)"
  by (simp add: ensure_def map_of_eq_None_iff)

lemma ensure_sum:
  "g v = (0::int) \<Longrightarrow>
   sum_list (map (\<lambda>p. g (snd p)) (ensure k v m)) = sum_list (map (\<lambda>p. g (snd p)) m)"
  by (simp add: ensure_def)

lemma modify_sum_same:
  "(\<And>v. g (f v) = g v) \<Longrightarrow>
   sum_list (map (\<lambda>p. g (snd p)) (modify k f m)) = (sum_list (map (\<lambda>p. g (snd p)) m) :: int)"
  by (induction m) auto

lemma modify_sum_add:
  "k \<in> fst ` set m \<Longrightarrow> (\<And>v. g (f v) = g v + d) \<Longrightarrow>
   sum_list (map (\<lambda>p. g (snd p)) (modify k f m)) = (sum_list (map (\<lambda>p. g (snd p)) m) :: int) + d"
proof (induction m)
  case Nil
  then show ?case by simp
next
  case (Cons p m)
  obtain k' v where p: "p = (k', v)" by (cases p)
  show ?case
  proof (cases "k' = k")
    case True
    then show ?thesis using Cons.prems(2) by (simp add: p)
  next
    case False
    with Cons.prems(1) have "k \<in> fst ` set m" by (auto simp: p)
    from Cons.IH [OF this Cons.prems(2)] False show ?thesis by (simp add: p)
  qed
qed

lemma foldl_plus: "foldl (\<lambda>s c. s + g c) a xs = (a :: int) + sum_list (map g xs)"
  by (induction xs arbitrary: a) simp_all

lemma sum_list_sort_key: "sum_list (map g (sort_key f xs)) = (sum_list (map g xs) :: int)"
proof -
  have "mset (map g (sort_key f xs)) = mset (map g xs)" by simp
  then show ?thesis by (metis sum_mset_sum_list)
qed

section \<open>Results: forwarding summary\<close>

lemma summary_step_fee:
  "sum_list (map (\<lambda>p. cs_fee_earned_msat (snd p)) (summary_step m e))
   = sum_list (map (\<lambda>p. cs_fee_earned_msat (snd p)) m) + fee_msat e"
proof -
  let ?i = "or_default (chan_id_in e) ''unknown''"
  let ?o = "or_default (chan_id_out e) ''unknown''"
  let ?g = "\<lambda>p :: string \<times> chan_stat. cs_fee_earned_msat (snd p)"
  define s2 where "s2 = ensure ?o (empty_stat ?o) (ensure ?i (empty_stat ?i) m)"
  define s5 where "s5 = modify ?o (\<lambda>s. s\<lparr>cs_forwards_out := cs_forwards_out s + 1\<rparr>)
     (modify ?i (\<lambda>s. s\<lparr>cs_amount_routed_in_msat := cs_amount_routed_in_msat s + amt_in_msat e\<rparr>)
       (modify ?i (\<lambda>s. s\<lparr>cs_forwards_in := cs_forwards_in s + 1\<rparr>) s2))"
  have a: "sum_list (map ?g s2) = sum_list (map ?g m)"
    by (simp add: s2_def ensure_sum empty_stat_def)
  have b: "?o \<in> fst ` set s2"
    by (simp add: s2_def ensure_present)
  have c: "sum_list (map ?g s5) = sum_list (map ?g s2)"
    by (simp add: s5_def modify_sum_same)
  have d: "?o \<in> fst ` set s5"
    using b by (simp add: s5_def modify_dom)
  have "summary_step m e =
     modify ?o (\<lambda>s. s\<lparr>cs_amount_routed_out_msat := cs_amount_routed_out_msat s + amt_out_msat e\<rparr>)
       (modify ?o (\<lambda>s. s\<lparr>cs_fee_earned_msat := cs_fee_earned_msat s + fee_msat e\<rparr>) s5)"
    by (simp add: summary_step_def s5_def s2_def Let_def)
  then have "sum_list (map ?g (summary_step m e)) = sum_list (map ?g s5) + fee_msat e"
    using modify_sum_add [OF d, of cs_fee_earned_msat
        "\<lambda>s. s\<lparr>cs_fee_earned_msat := cs_fee_earned_msat s + fee_msat e\<rparr>" "fee_msat e"]
    by (simp add: modify_sum_same)
  with a c show ?thesis by simp
qed

lemma summary_fold_fee:
  "sum_list (map (\<lambda>p. cs_fee_earned_msat (snd p)) (foldl summary_step m es))
   = sum_list (map (\<lambda>p. cs_fee_earned_msat (snd p)) m) + sum_list (map fee_msat es)"
  by (induction es arbitrary: m) (simp_all add: summary_step_fee)

lemma map_of_modify:
  "map_of (modify k f m) k' = (if k' = k then map_option f (map_of m k) else map_of m k')"
  by (induction m) auto

lemma map_of_ensure:
  "map_of (ensure k v m) k' = (if k' = k \<and> map_of m k = None then Some v else map_of m k')"
  by (auto simp: ensure_def map_add_def split: option.splits)

lemma fee_credit_ensure:
  "fee_credit (ensure k (empty_stat k) m) k' = fee_credit m k'"
  by (simp add: fee_credit_def map_of_ensure empty_stat_def)

lemma fee_credit_modify_same:
  "(\<And>v. cs_fee_earned_msat (f v) = cs_fee_earned_msat v) \<Longrightarrow>
   fee_credit (modify k f m) k' = fee_credit m k'"
  by (simp add: fee_credit_def map_of_modify split: option.splits)

lemma fee_credit_modify_add:
  "k \<in> fst ` set m \<Longrightarrow>
   fee_credit (modify k (\<lambda>s. s\<lparr>cs_fee_earned_msat := cs_fee_earned_msat s + d\<rparr>) m) k'
   = fee_credit m k' + (if k' = k then d else 0)"
  by (auto simp: fee_credit_def map_of_modify map_of_eq_None_iff split: option.splits)


lemma summary_step_credit:
  "fee_credit (summary_step m e) k
   = fee_credit m k + (if k = or_default (chan_id_out e) ''unknown'' then fee_msat e else 0)"
proof -
  let ?i = "or_default (chan_id_in e) ''unknown''"
  let ?o = "or_default (chan_id_out e) ''unknown''"
  define s1 where "s1 = ensure ?i (empty_stat ?i) m"
  define s2 where "s2 = ensure ?o (empty_stat ?o) s1"
  define s3 where "s3 = modify ?i (\<lambda>s. s\<lparr>cs_forwards_in := cs_forwards_in s + 1\<rparr>) s2"
  define s4 where "s4 = modify ?i
      (\<lambda>s. s\<lparr>cs_amount_routed_in_msat := cs_amount_routed_in_msat s + amt_in_msat e\<rparr>) s3"
  define s5 where "s5 = modify ?o (\<lambda>s. s\<lparr>cs_forwards_out := cs_forwards_out s + 1\<rparr>) s4"
  define s6 where "s6 = modify ?o
      (\<lambda>s. s\<lparr>cs_fee_earned_msat := cs_fee_earned_msat s + fee_msat e\<rparr>) s5"
  define s7 where "s7 = modify ?o
      (\<lambda>s. s\<lparr>cs_amount_routed_out_msat := cs_amount_routed_out_msat s + amt_out_msat e\<rparr>) s6"
  have r: "summary_step m e = s7"
    by (simp add: summary_step_def Let_def s1_def s2_def s3_def s4_def s5_def s6_def s7_def)
  have c1: "fee_credit s1 k = fee_credit m k"
    unfolding s1_def by (rule fee_credit_ensure)
  have c2: "fee_credit s2 k = fee_credit s1 k"
    unfolding s2_def by (rule fee_credit_ensure)
  have c3: "fee_credit s3 k = fee_credit s2 k"
    unfolding s3_def by (rule fee_credit_modify_same) simp
  have c4: "fee_credit s4 k = fee_credit s3 k"
    unfolding s4_def by (rule fee_credit_modify_same) simp
  have c5: "fee_credit s5 k = fee_credit s4 k"
    unfolding s5_def by (rule fee_credit_modify_same) simp
  have "?o \<in> fst ` set s2"
    unfolding s2_def by (rule ensure_present)
  then have "?o \<in> fst ` set s5"
    unfolding s3_def s4_def s5_def by (intro modify_dom)
  then have c6: "fee_credit s6 k = fee_credit s5 k + (if k = ?o then fee_msat e else 0)"
    unfolding s6_def by (rule fee_credit_modify_add)
  have c7: "fee_credit s7 k = fee_credit s6 k"
    unfolding s7_def by (rule fee_credit_modify_same) simp
  show ?thesis
    unfolding r using c1 c2 c3 c4 c5 c6 c7 by simp
qed

lemma summary_fold_credit:
  "fee_credit (foldl summary_step m es) k = fee_credit m k + out_fees es k"
proof (induction es arbitrary: m)
  case Nil
  then show ?case by (simp add: out_fees_def)
next
  case (Cons e es)
  have "out_fees (e # es) k
        = (if k = or_default (chan_id_out e) ''unknown'' then fee_msat e else 0) + out_fees es k"
    by (auto simp: out_fees_def)
  with Cons.IH [of "summary_step m e"] show ?case
    by (simp add: summary_step_credit)
qed


lemma stat_inv_ensure: "stat_inv m \<Longrightarrow> stat_inv (ensure k (empty_stat k) m)"
  by (auto simp: stat_inv_def ensure_def map_of_eq_None_iff empty_stat_def)

lemma modify_ids:
  assumes "\<And>v. cs_chan_id (f v) = cs_chan_id v"
    and "\<forall>p \<in> set m. cs_chan_id (snd p) = fst p"
  shows "\<forall>p \<in> set (modify k f m). cs_chan_id (snd p) = fst p"
  using assms(2)
proof (induction m)
  case Nil
  then show ?case by simp
next
  case (Cons p m)
  obtain k' v where p: "p = (k', v)" by (cases p)
  from Cons.prems have hd: "cs_chan_id v = k'"
    and tl: "\<forall>p \<in> set m. cs_chan_id (snd p) = fst p"
    by (simp_all add: p)
  from Cons.IH [OF tl] have ih: "\<forall>p \<in> set (modify k f m). cs_chan_id (snd p) = fst p" .
  show ?case
  proof (cases "k' = k")
    case True
    with hd tl assms(1) show ?thesis by (simp add: p)
  next
    case False
    with hd ih show ?thesis by (simp add: p)
  qed
qed

lemma stat_inv_modify:
  assumes "\<And>v. cs_chan_id (f v) = cs_chan_id v" and "stat_inv m"
  shows "stat_inv (modify k f m)"
proof -
  from assms(2) have "distinct (map fst (modify k f m))"
    by (simp add: stat_inv_def modify_keys)
  moreover from assms have "\<forall>p \<in> set (modify k f m). cs_chan_id (snd p) = fst p"
    by (intro modify_ids) (simp_all add: stat_inv_def)
  ultimately show ?thesis by (simp add: stat_inv_def)
qed

lemma stat_inv_step:
  assumes "stat_inv m"
  shows "stat_inv (summary_step m e)"
  unfolding summary_step_def Let_def
  by (intro stat_inv_modify stat_inv_ensure assms) simp_all

lemma stat_inv_fold: "stat_inv m \<Longrightarrow> stat_inv (foldl summary_step m es)"
  by (induction es arbitrary: m) (simp_all add: stat_inv_step)

lemma summary_entry_credit:
  assumes "s \<in> set (fs_channel_summary (forwardingSummary st en events))"
  shows "se_fee_earned_msat s = out_fees events (se_chan_id s)"
proof -
  let ?m = "foldl summary_step [] events"
  have inv: "stat_inv ?m"
    by (rule stat_inv_fold) (simp add: stat_inv_def)
  from assms obtain p where p: "p \<in> set ?m" and s: "s = summary_of (snd p)"
    by (auto simp: forwardingSummary_def Let_def object_values_def)
  from inv p have id: "cs_chan_id (snd p) = fst p"
    by (simp add: stat_inv_def)
  from inv have "distinct (map fst ?m)" by (simp add: stat_inv_def)
  with p have "map_of ?m (fst p) = Some (snd p)"
    using map_of_is_SomeI [of ?m "fst p" "snd p"] by simp
  then have "fee_credit ?m (fst p) = cs_fee_earned_msat (snd p)"
    by (simp add: fee_credit_def)
  moreover have "fee_credit ?m (fst p) = out_fees events (fst p)"
    using summary_fold_credit [of "[]" events "fst p"] by (simp add: fee_credit_def)
  ultimately show ?thesis
    by (simp add: s summary_of_def id)
qed

text \<open>
  Claim C5: for every list of forwarding events, the fees are conserved by the forwarding
  summary: the sum of \<open>fee_earned_msat\<close> over the entries of \<open>channel_summary\<close> equals the
  sum of \<open>fee_msat\<close> over the input events, and this is the reported
  \<open>total_fee_earned_msat\<close>. Each fee is credited to the outbound channel of its event:
  the \<open>fee_earned_msat\<close> of an entry is the sum of the fees of the events whose outbound
  leg is the entry's channel.
\<close>

theorem forwarding_fee_conservation:
  "sum_list (map se_fee_earned_msat (fs_channel_summary (forwardingSummary st en events)))
     = sum_list (map fee_msat events)
   \<and> fs_total_fee_earned_msat (forwardingSummary st en events) = sum_list (map fee_msat events)
   \<and> (\<forall>s \<in> set (fs_channel_summary (forwardingSummary st en events)).
        se_fee_earned_msat s = out_fees events (se_chan_id s))"
proof -
  have "sum_list (map se_fee_earned_msat
          (map summary_of (object_values (foldl summary_step [] events))))
      = sum_list (map (\<lambda>p. cs_fee_earned_msat (snd p)) (foldl summary_step [] events))"
    by (simp add: object_values_def summary_of_def comp_def)
  also have "\<dots> = sum_list (map fee_msat events)"
    by (simp add: summary_fold_fee)
  finally have "sum_list (map se_fee_earned_msat (fs_channel_summary (forwardingSummary st en events)))
     = sum_list (map fee_msat events)
   \<and> fs_total_fee_earned_msat (forwardingSummary st en events) = sum_list (map fee_msat events)"
    by (simp add: forwardingSummary_def Let_def foldl_plus sum_list_sort_key)
  with summary_entry_credit [of _ st en events] show ?thesis by blast
qed

section \<open>Results: dust analysis\<close>

text \<open>
  Claim C6: for every list of forwarding events and every dust threshold, each event
  whose outbound amount (in satoshis, whole or exact) is at most the threshold is in the
  dust partition and not in the normal one; the two partitions are disjoint, and
  together they are the input events, each as often as it was received. The report
  counts the dust forwards and sums the dust fees over the first partition, and sums the
  normal fees over the second.
\<close>

theorem dust_partition:
  "(\<forall>e \<in> set events.
       (of_int (amtOutSat e) \<le> t \<or> of_int (amt_out_msat e) / 1000 \<le> t) \<longrightarrow>
       e \<in> set (dustEvents t events) \<and> e \<notin> set (normalEvents t events))
   \<and> set (dustEvents t events) \<inter> set (normalEvents t events) = {}
   \<and> set (dustEvents t events) \<union> set (normalEvents t events) = set events
   \<and> mset (dustEvents t events) + mset (normalEvents t events) = mset events
   \<and> da_total_dust_forwards (dustAnalysis t s events) = length (dustEvents t events)
   \<and> da_total_dust_fee_earned_msat (dustAnalysis t s events)
       = sum_list (map fee_msat (dustEvents t events))
   \<and> da_total_normal_fee_earned_msat (dustAnalysis t s events)
       = sum_list (map fee_msat (normalEvents t events))"
proof -
  have fl: "of_int (amtOutSat e) \<le> t" if "of_int (amt_out_msat e) / 1000 \<le> t" for e
  proof -
    have "(of_int (amtOutSat e) :: rat) = of_int \<lfloor>(of_int (amt_out_msat e) :: rat) / 1000\<rfloor>"
      using floor_divide_of_int_eq [of "amt_out_msat e" 1000, where ?'a = rat]
      by (simp add: amtOutSat_def)
    also have "\<dots> \<le> of_int (amt_out_msat e) / 1000"
      by (rule of_int_floor_le)
    finally show ?thesis using that by simp
  qed
  have p1: "e \<in> set (dustEvents t events) \<and> e \<notin> set (normalEvents t events)"
    if "e \<in> set events"
      and "of_int (amtOutSat e) \<le> t \<or> of_int (amt_out_msat e) / 1000 \<le> t" for e
  proof -
    from that(2) fl have "of_int (amtOutSat e) \<le> t" by blast
    with that(1) show ?thesis by (simp add: dustEvents_def normalEvents_def)
  qed
  have p2: "set (dustEvents t events) \<inter> set (normalEvents t events) = {}"
    by (auto simp: dustEvents_def normalEvents_def)
  have p3: "set (dustEvents t events) \<union> set (normalEvents t events) = set events"
    by (auto simp: dustEvents_def normalEvents_def)
  have p4: "mset (dustEvents t events) + mset (normalEvents t events) = mset events"
    by (induction events) (auto simp: dustEvents_def normalEvents_def)
  have p5: "da_total_dust_forwards (dustAnalysis t s events) = length (dustEvents t events)"
    by (simp add: dustAnalysis_def Let_def)
  have p6: "da_total_dust_fee_earned_msat (dustAnalysis t s events)
       = sum_list (map fee_msat (dustEvents t events))"
    by (simp add: dustAnalysis_def Let_def foldl_plus)
  have p7: "da_total_normal_fee_earned_msat (dustAnalysis t s events)
       = sum_list (map fee_msat (normalEvents t events))"
    by (simp add: dustAnalysis_def Let_def foldl_plus)
  from p1 p2 p3 p4 p5 p6 p7 show ?thesis by blast
qed

section \<open>Results: rebalance planner\<close>

text \<open>
  Claim C7: for every channel snapshot the planner suggests exactly
  \<open>min(|sources|, |sinks|)\<close> pairs; the pair at index \<open>i\<close> joins \<open>sources[i]\<close> with
  \<open>sinks[i]\<close>, and its amount is the smaller of the two \<open>amount_to_move_sat\<close>, so it
  exceeds neither.
\<close>

theorem rebalance_pairs:
  "length (rp_suggested_rebalances (suggestRebalances t m chans))
     = min (length (rp_sources (suggestRebalances t m chans)))
           (length (rp_sinks (suggestRebalances t m chans)))
   \<and> (\<forall>i < length (rp_suggested_rebalances (suggestRebalances t m chans)).
        from_channel (rp_suggested_rebalances (suggestRebalances t m chans) ! i)
          = re_chan_id (rp_sources (suggestRebalances t m chans) ! i)
      \<and> to_channel (rp_suggested_rebalances (suggestRebalances t m chans) ! i)
          = re_chan_id (rp_sinks (suggestRebalances t m chans) ! i)
      \<and> suggested_amount_sat (rp_suggested_rebalances (suggestRebalances t m chans) ! i)
          = min (re_amount_to_move_sat (rp_sources (suggestRebalances t m chans) ! i))
                (re_amount_to_move_sat (rp_sinks (suggestRebalances t m chans) ! i))
      \<and> suggested_amount_sat (rp_suggested_rebalances (suggestRebalances t m chans) ! i)
          \<le> re_amount_to_move_sat (rp_sources (suggestRebalances t m chans) ! i)
      \<and> suggested_amount_sat (rp_suggested_rebalances (suggestRebalances t m chans) ! i)
          \<le> re_amount_to_move_sat (rp_sinks (suggestRebalances t m chans) ! i))"
proof -
  obtain sources sinks where s: "rebalance_scan t m chans ([], []) = (sources, sinks)"
    by (cases "rebalance_scan t m chans ([], [])") auto
  show ?thesis
    by (simp add: suggestRebalances_def s Let_def pair_at_def)
qed

theorem forwarding_fee_conservation_witness:
  "sum_list (map se_fee_earned_msat
      (fs_channel_summary (forwardingSummary 0 10 [small_forward, large_forward, small_forward])))
    = 2502
   \<and> map se_chan_id
       (fs_channel_summary (forwardingSummary 0 10 [small_forward, large_forward, small_forward]))
     = [''unknown'', ''770000000000000002'', ''770000000000000001'']
   \<and> map se_fee_earned_msat
       (fs_channel_summary (forwardingSummary 0 10 [small_forward, large_forward, small_forward]))
     = [2500, 2, 0]"
proof -
  let ?r = "forwardingSummary 0 10 [small_forward, large_forward, small_forward]"
  have a: "map se_chan_id (fs_channel_summary ?r)
     = [''unknown'', ''770000000000000002'', ''770000000000000001'']" by code_simp
  have b: "map se_fee_earned_msat (fs_channel_summary ?r) = [2500, 2, 0]" by code_simp
  from forwarding_fee_conservation [of 0 10 "[small_forward, large_forward, small_forward]"]
  have "sum_list (map se_fee_earned_msat (fs_channel_summary ?r))
        = sum_list (map fee_msat [small_forward, large_forward, small_forward])"
    by blast
  then have "sum_list (map se_fee_earned_msat (fs_channel_summary ?r)) = 2502"
    by (simp add: small_forward_def large_forward_def)
  with a b show ?thesis by blast
qed

theorem dust_partition_witness:
  "small_forward \<in> set [small_forward, large_forward]
   \<and> of_int (amtOutSat small_forward) \<le> (100 :: rat)
   \<and> small_forward \<in> set (dustEvents 100 [small_forward, large_forward])
   \<and> small_forward \<notin> set (normalEvents 100 [small_forward, large_forward])"
proof -
  have h1: "small_forward \<in> set [small_forward, large_forward]" by simp
  have h2: "of_int (amtOutSat small_forward) \<le> (100 :: rat)"
    by (simp add: amtOutSat_def small_forward_def)
  from dust_partition [of "[small_forward, large_forward]" 100 2] h1 h2 show ?thesis
    by blast
qed

theorem rebalance_pairs_witness:
  "0 < length (rp_suggested_rebalances (suggestRebalances 50 10 [rich_channel, poor_channel]))
   \<and> suggested_amount_sat
        (rp_suggested_rebalances (suggestRebalances 50 10 [rich_channel, poor_channel]) ! 0)
      = 400000"
proof -
  let ?r = "suggestRebalances 50 10 [rich_channel, poor_channel]"
  have l: "0 < length (rp_suggested_rebalances ?r)" by code_simp
  have a: "re_amount_to_move_sat (rp_sources ?r ! 0) = 400000" by code_simp
  have b: "re_amount_to_move_sat (rp_sinks ?r ! 0) = 800000" by code_simp
  from rebalance_pairs [of 50 10 "[rich_channel, poor_channel]"] l
  have "suggested_amount_sat (rp_suggested_rebalances ?r ! 0)
        = min (re_amount_to_move_sat (rp_sources ?r ! 0)) (re_amount_to_move_sat (rp_sinks ?r ! 0))"
    by blast
  with l a b show ?thesis by simp
qed

section \<open>Results: peer scoring\<close>





section \<open>Results: the paginated collector\<close>

lemma turn_shift:
  "(turn lnd st en P ^^ Suc k) pos = (turn lnd st en P ^^ k) (turn lnd st en P pos)"
  by (simp only: funpow_Suc_right comp_apply)

lemma reply_from_0:
  "reply_from lnd st en P (h, off) 0 = lnd h (switch_req st en P off)"
  by (simp add: reply_from_def)

lemma reply_from_Suc:
  "reply_from lnd st en P pos (Suc k) = reply_from lnd st en P (turn lnd st en P pos) k"
  unfolding reply_from_def by (simp only: turn_shift)

lemma pages_Suc:
  "concat (map (\<lambda>k. page_of (reply_from lnd st en P pos k)) [0..<Suc n])
   = page_of (reply_from lnd st en P pos 0)
     @ concat (map (\<lambda>k. page_of (reply_from lnd st en P (turn lnd st en P pos) k)) [0..<n])"
proof -
  have "map (\<lambda>k. page_of (reply_from lnd st en P pos k)) [0..<Suc n]
        = page_of (reply_from lnd st en P pos 0)
          # map (\<lambda>k. page_of (reply_from lnd st en P pos (Suc k))) [0..<n]"
    by (rule map_upt_Suc)
  then show ?thesis by (simp add: reply_from_Suc)
qed

lemma collect_short:
  assumes "\<forall>j<n. full_page P (reply_from lnd st en P (h, off) j)"
    and "short_page P (reply_from lnd st en P (h, off) n)"
  shows "collect_loop lnd st en P off acc h =
     Some (Inr (acc @ concat (map (\<lambda>k. page_of (reply_from lnd st en P (h, off) k)) [0..<Suc n])),
           fst ((turn lnd st en P ^^ Suc n) (h, off)))"
  using assms
proof (induction n arbitrary: h off acc)
  case 0
  then obtain resp where r: "lnd h (switch_req st en P off) = Inr resp"
    and s: "length (events_of resp) < P"
    by (auto simp: reply_from_0 short_page_def split: sum.splits)
  show ?case
    by (subst collect_loop.simps) (simp add: r s reply_from_0 page_of_def turn_def)
next
  case (Suc n)
  from Suc.prems(1) have "full_page P (reply_from lnd st en P (h, off) 0)" by blast
  then obtain resp where r: "lnd h (switch_req st en P off) = Inr resp"
    and s: "\<not> length (events_of resp) < P"
    by (auto simp: reply_from_0 full_page_def split: sum.splits)
  have t: "turn lnd st en P (h, off) = (h @ [switch_req st en P off], offset_of resp)"
    by (simp add: turn_def r next_offset_def)
  have f: "\<forall>j<n. full_page P (reply_from lnd st en P (h @ [switch_req st en P off], offset_of resp) j)"
    using Suc.prems(1) by (auto simp: reply_from_Suc t dest: Suc_mono)
  have sh: "short_page P (reply_from lnd st en P (h @ [switch_req st en P off], offset_of resp) n)"
    using Suc.prems(2) by (simp add: reply_from_Suc t)
  have "collect_loop lnd st en P off acc h
        = collect_loop lnd st en P (offset_of resp) (acc @ events_of resp) (h @ [switch_req st en P off])"
    by (subst collect_loop.simps) (simp add: r s)
  also note Suc.IH [OF f sh]
  finally show ?case
    by (simp only: pages_Suc [where n = "Suc n" and pos = "(h, off)"]
          turn_shift [where k = "Suc n" and pos = "(h, off)"] t)
       (simp add: reply_from_0 r page_of_def)
qed

lemma collect_error:
  assumes "\<forall>j<n. full_page P (reply_from lnd st en P (h, off) j)"
    and "reply_from lnd st en P (h, off) n = Inl err"
  shows "collect_loop lnd st en P off acc h =
     Some (Inl err, fst ((turn lnd st en P ^^ Suc n) (h, off)))"
  using assms
proof (induction n arbitrary: h off acc)
  case 0
  then have r: "lnd h (switch_req st en P off) = Inl err"
    by (simp add: reply_from_0)
  show ?case
    by (subst collect_loop.simps) (simp add: r turn_def)
next
  case (Suc n)
  from Suc.prems(1) have "full_page P (reply_from lnd st en P (h, off) 0)" by blast
  then obtain resp where r: "lnd h (switch_req st en P off) = Inr resp"
    and s: "\<not> length (events_of resp) < P"
    by (auto simp: reply_from_0 full_page_def split: sum.splits)
  have t: "turn lnd st en P (h, off) = (h @ [switch_req st en P off], offset_of resp)"
    by (simp add: turn_def r next_offset_def)
  have f: "\<forall>j<n. full_page P (reply_from lnd st en P (h @ [switch_req st en P off], offset_of resp) j)"
    using Suc.prems(1) by (auto simp: reply_from_Suc t dest: Suc_mono)
  have e: "reply_from lnd st en P (h @ [switch_req st en P off], offset_of resp) n = Inl err"
    using Suc.prems(2) by (simp add: reply_from_Suc t)
  have "collect_loop lnd st en P off acc h
        = collect_loop lnd st en P (offset_of resp) (acc @ events_of resp) (h @ [switch_req st en P off])"
    by (subst collect_loop.simps) (simp add: r s)
  also note Suc.IH [OF f e]
  finally show ?case
    by (simp only: turn_shift [where k = "Suc n" and pos = "(h, off)"] t)
qed

lemma sent_by_turns:
  "fst ((turn lnd st en P ^^ k) pos)
   = fst pos @ map (\<lambda>j. switch_req st en P (snd ((turn lnd st en P ^^ j) pos))) [0..<k]"
  by (induction k) (simp_all add: turn_def)

lemma collect_Some_ends:
  assumes "collect_loop lnd st en P off acc h = Some y"
  shows "\<exists>n. (\<forall>j<n. full_page P (reply_from lnd st en P (h, off) j))
             \<and> \<not> full_page P (reply_from lnd st en P (h, off) n)"
proof (rule collect_loop.raw_induct
    [where P = "\<lambda>lnd st en P off acc h y.
        \<exists>n. (\<forall>j<n. full_page P (reply_from lnd st en P (h, off) j))
             \<and> \<not> full_page P (reply_from lnd st en P (h, off) n)", OF _ assms])
  fix loop :: "switch_node \<Rightarrow> int \<Rightarrow> int \<Rightarrow> nat \<Rightarrow> nat \<Rightarrow> fwd_event list \<Rightarrow> switch_request list
     \<Rightarrow> ((lnd_error + fwd_event list) \<times> switch_request list) option"
  fix lnd st en P off acc h y
  assume IH: "\<And>lnd st en P off acc h y. loop lnd st en P off acc h = Some y \<Longrightarrow>
        \<exists>n. (\<forall>j<n. full_page P (reply_from lnd st en P (h, off) j))
             \<and> \<not> full_page P (reply_from lnd st en P (h, off) n)"
    and body: "(case lnd h (switch_req st en P off) of
        Inl err \<Rightarrow> Some (Inl err, h @ [switch_req st en P off])
      | Inr resp \<Rightarrow>
          if length (events_of resp) < P
          then Some (Inr (acc @ events_of resp), h @ [switch_req st en P off])
          else loop lnd st en P (offset_of resp) (acc @ events_of resp)
                 (h @ [switch_req st en P off])) = Some y"
  show "\<exists>n. (\<forall>j<n. full_page P (reply_from lnd st en P (h, off) j))
             \<and> \<not> full_page P (reply_from lnd st en P (h, off) n)"
  proof (cases "full_page P (lnd h (switch_req st en P off))")
    case False
    then have "\<not> full_page P (reply_from lnd st en P (h, off) 0)"
      by (simp add: reply_from_0)
    then show ?thesis by blast
  next
    case True
    then obtain resp where r: "lnd h (switch_req st en P off) = Inr resp"
      and s: "\<not> length (events_of resp) < P"
      by (auto simp: full_page_def split: sum.splits)
    have t: "turn lnd st en P (h, off) = (h @ [switch_req st en P off], offset_of resp)"
      by (simp add: turn_def r next_offset_def)
    from body have "loop lnd st en P (offset_of resp) (acc @ events_of resp)
        (h @ [switch_req st en P off]) = Some y"
      by (simp add: r s)
    from IH [OF this] obtain n where
      a: "\<forall>j<n. full_page P (reply_from lnd st en P (h @ [switch_req st en P off], offset_of resp) j)"
      and b: "\<not> full_page P (reply_from lnd st en P (h @ [switch_req st en P off], offset_of resp) n)"
      by blast
    have "\<forall>j<Suc n. full_page P (reply_from lnd st en P (h, off) j)"
    proof (intro allI impI)
      fix j assume "j < Suc n"
      then show "full_page P (reply_from lnd st en P (h, off) j)"
        using a True by (cases j) (simp_all add: reply_from_0 reply_from_Suc t)
    qed
    moreover have "\<not> full_page P (reply_from lnd st en P (h, off) (Suc n))"
      using b by (simp add: reply_from_Suc t)
    ultimately show ?thesis by blast
  qed
qed

lemma offset_at_Suc:
  "offset_at lnd st en (Suc k) = next_offset (reply_at lnd st en k)"
  by (simp add: offset_at_def reply_at_def reply_from_def turn_def Let_def)

lemma collect_returns:
  assumes "\<forall>j<n. full_page 10000 (reply_at lnd st en j)"
    and "short_page 10000 (reply_at lnd st en n)"
  shows "getAllForwardingEvents lnd st en =
     Some (Inr (concat (map (\<lambda>k. page_of (reply_at lnd st en k)) [0..<Suc n])),
           map (\<lambda>k. switch_req st en 10000 (offset_at lnd st en k)) [0..<Suc n])"
proof -
  have "collect_loop lnd st en 10000 0 [] [] =
     Some (Inr ([] @ concat (map (\<lambda>k. page_of (reply_from lnd st en 10000 ([], 0) k)) [0..<Suc n])),
           fst ((turn lnd st en 10000 ^^ Suc n) ([], 0)))"
    using assms unfolding reply_at_def by (rule collect_short)
  then show ?thesis
    by (simp only: getAllForwardingEvents_def reply_at_def offset_at_def
        sent_by_turns [where k = "Suc n"] fst_conv append_Nil)
qed

lemma collect_fails:
  assumes "\<forall>j<n. full_page 10000 (reply_at lnd st en j)"
    and "reply_at lnd st en n = Inl err"
  shows "\<exists>sent. getAllForwardingEvents lnd st en = Some (Inl err, sent)"
  using collect_error [of n 10000 lnd st en "[]" 0 err "[]"] assms
  unfolding reply_at_def getAllForwardingEvents_def by blast

lemma collect_ends:
  assumes "getAllForwardingEvents lnd st en = Some y"
  shows "\<exists>n. (\<forall>j<n. full_page 10000 (reply_at lnd st en j))
             \<and> \<not> full_page 10000 (reply_at lnd st en n)"
  using collect_Some_ends [of lnd st en 10000 0 "[]" "[]" y] assms
  unfolding reply_at_def getAllForwardingEvents_def by blast

lemma not_full_cases:
  "\<not> full_page P r \<Longrightarrow> short_page P r \<or> (\<exists>err. r = Inl err)"
  by (cases r) (simp_all add: full_page_def short_page_def)

lemma short_not_full: "short_page P r \<Longrightarrow> \<not> full_page P r"
  by (cases r) (simp_all add: full_page_def short_page_def)

lemma collect_iff:
  "getAllForwardingEvents lnd st en = Some (Inr evs, sent)
   \<longleftrightarrow> (\<exists>n. (\<forall>j<n. full_page 10000 (reply_at lnd st en j))
            \<and> short_page 10000 (reply_at lnd st en n)
            \<and> evs = concat (map (\<lambda>k. page_of (reply_at lnd st en k)) [0..<Suc n])
            \<and> sent = map (\<lambda>k. switch_req st en 10000 (offset_at lnd st en k)) [0..<Suc n])"
  (is "?L \<longleftrightarrow> ?R")
proof
  assume ?R
  then show ?L using collect_returns by blast
next
  assume l: ?L
  from collect_ends [OF l] obtain n where
    f: "\<forall>j<n. full_page 10000 (reply_at lnd st en j)"
    and nf: "\<not> full_page 10000 (reply_at lnd st en n)" by blast
  from not_full_cases [OF nf] show ?R
  proof
    assume s: "short_page 10000 (reply_at lnd st en n)"
    from collect_returns [OF f s] l
    have "evs = concat (map (\<lambda>k. page_of (reply_at lnd st en k)) [0..<Suc n])"
      and "sent = map (\<lambda>k. switch_req st en 10000 (offset_at lnd st en k)) [0..<Suc n]"
      by simp_all
    with f s show ?R by blast
  next
    assume "\<exists>err. reply_at lnd st en n = Inl err"
    then obtain err where "reply_at lnd st en n = Inl err" by blast
    from collect_fails [OF f this] l show ?R by simp
  qed
qed

lemma collect_None_iff:
  "getAllForwardingEvents lnd st en = None \<longleftrightarrow> (\<forall>n. full_page 10000 (reply_at lnd st en n))"
proof
  assume n: "getAllForwardingEvents lnd st en = None"
  show "\<forall>n. full_page 10000 (reply_at lnd st en n)"
  proof (rule ccontr)
    assume "\<not> (\<forall>n. full_page 10000 (reply_at lnd st en n))"
    then have "\<exists>n. \<not> full_page 10000 (reply_at lnd st en n)" by blast
    then obtain m where nf: "\<not> full_page 10000 (reply_at lnd st en m)"
      and least: "\<forall>j<m. full_page 10000 (reply_at lnd st en j)"
      using exists_least_iff [of "\<lambda>n. \<not> full_page 10000 (reply_at lnd st en n)"] by blast
    from not_full_cases [OF nf] show False
    proof
      assume "short_page 10000 (reply_at lnd st en m)"
      from collect_returns [OF least this] n show False by simp
    next
      assume "\<exists>err. reply_at lnd st en m = Inl err"
      then obtain err where "reply_at lnd st en m = Inl err" by blast
      from collect_fails [OF least this] n show False by auto
    qed
  qed
next
  assume a: "\<forall>n. full_page 10000 (reply_at lnd st en n)"
  show "getAllForwardingEvents lnd st en = None"
  proof (cases "getAllForwardingEvents lnd st en")
    case None
    then show ?thesis .
  next
    case (Some y)
    from collect_ends [OF Some] a show ?thesis by blast
  qed
qed

lemma list_source_one_page:
  assumes "length es = 10000"
  shows "getAllForwardingEvents (list_source es) st en =
     Some (Inr es, [switch_req st en 10000 0, switch_req st en 10000 10000])"
proof -
  have r0: "list_source es [] (switch_req st en 10000 0)
      = Inr \<lparr> forwarding_events = Some es, last_offset_index = Some 10000 \<rparr>"
    using assms by (simp add: list_source_def switch_req_def)
  have r1: "list_source es [switch_req st en 10000 0] (switch_req st en 10000 10000)
      = Inr \<lparr> forwarding_events = Some [], last_offset_index = Some 10000 \<rparr>"
    using assms by (simp add: list_source_def switch_req_def)
  have "collect_loop (list_source es) st en 10000 0 [] []
      = collect_loop (list_source es) st en 10000 10000 es [switch_req st en 10000 0]"
    using assms by (subst collect_loop.simps) (simp add: r0 events_of_def offset_of_def)
  also have "\<dots> = Some (Inr es, [switch_req st en 10000 0, switch_req st en 10000 10000])"
    by (subst collect_loop.simps) (simp add: r1 events_of_def)
  finally show ?thesis by (simp add: getAllForwardingEvents_def)
qed

text \<open>
  Claim C4: the collector asks for one page after the other, each request made from the
  reply to the one before: the first at offset 0, every later one at the
  \<open>last_offset_index\<close> the node reported (0 when the reply has none), never at an offset
  advanced by the page size. It returns exactly when a page arrives with fewer than
  10,000 events, all pages before it being full, and then returns the pages concatenated
  in the order fetched; if every page is full it never returns. In particular, over a
  source that holds exactly 10,000 events it makes two requests, at offsets 0 and 10,000,
  the second reply being the short (empty) page, and returns the 10,000 events.
\<close>

theorem collector_pagination:
  "(getAllForwardingEvents lnd st en = Some (Inr evs, sent)
     \<longleftrightarrow> (\<exists>n. (\<forall>j<n. full_page 10000 (reply_at lnd st en j))
              \<and> short_page 10000 (reply_at lnd st en n)
              \<and> evs = concat (map (\<lambda>k. page_of (reply_at lnd st en k)) [0..<Suc n])
              \<and> sent = map (\<lambda>k. switch_req st en 10000 (offset_at lnd st en k)) [0..<Suc n]))
   \<and> (getAllForwardingEvents lnd st en = None
        \<longleftrightarrow> (\<forall>n. full_page 10000 (reply_at lnd st en n)))
   \<and> offset_at lnd st en 0 = 0
   \<and> (\<forall>k. offset_at lnd st en (Suc k) = next_offset (reply_at lnd st en k))
   \<and> (length es = 10000 \<longrightarrow>
        getAllForwardingEvents (list_source es) st en =
          Some (Inr es, [switch_req st en 10000 0, switch_req st en 10000 10000]))"
proof -
  have "offset_at lnd st en 0 = 0" by (simp add: offset_at_def)
  with collect_iff [of lnd st en evs sent] collect_None_iff [of lnd st en]
    offset_at_Suc [of lnd st en] list_source_one_page [of es st en]
  show ?thesis by blast
qed

theorem collector_pagination_witness:
  "length (replicate 10000 small_forward) = 10000
   \<and> getAllForwardingEvents (list_source (replicate 10000 small_forward)) 0 86400
       = Some (Inr (replicate 10000 small_forward),
               [switch_req 0 86400 10000 0, switch_req 0 86400 10000 10000])"
  using collector_pagination [where es = "replicate 10000 small_forward" and st = 0 and en = 86400]
  by simp

section \<open>Results: applying fee suggestions\<close>

lemma apply_all_accepted:
  assumes "\<forall>j<length ss.
      lnd (sent @ map suggestion_request (take j ss)) (suggestion_request (ss ! j)) = Inr ()"
  shows "apply_suggestions lnd ss sent = (Inr (), sent @ map suggestion_request ss)"
  using assms
proof (induction ss arbitrary: sent)
  case Nil
  then show ?case by simp
next
  case (Cons s ss)
  from Cons.prems have h: "lnd sent (suggestion_request s) = Inr ()"
    by (metis append_Nil2 length_greater_0_conv list.simps(3) list.simps(8) nth_Cons_0 take_0)
  have "\<forall>j<length ss. lnd ((sent @ [suggestion_request s]) @ map suggestion_request (take j ss))
          (suggestion_request (ss ! j)) = Inr ()"
  proof (intro allI impI)
    fix j assume "j < length ss"
    then have "Suc j < length (s # ss)" by simp
    with Cons.prems have "lnd (sent @ map suggestion_request (take (Suc j) (s # ss)))
          (suggestion_request ((s # ss) ! Suc j)) = Inr ()" by blast
    then show "lnd ((sent @ [suggestion_request s]) @ map suggestion_request (take j ss))
          (suggestion_request (ss ! j)) = Inr ()" by simp
  qed
  from Cons.IH [OF this] h show ?case by simp
qed

lemma apply_first_failure:
  assumes "k < length ss"
    and "\<forall>j<k. lnd (sent @ map suggestion_request (take j ss)) (suggestion_request (ss ! j)) = Inr ()"
    and "lnd (sent @ map suggestion_request (take k ss)) (suggestion_request (ss ! k)) = Inl err"
  shows "apply_suggestions lnd ss sent = (Inl err, sent @ map suggestion_request (take (Suc k) ss))"
  using assms
proof (induction ss arbitrary: sent k)
  case Nil
  then show ?case by simp
next
  case (Cons s ss)
  show ?case
  proof (cases k)
    case 0
    with Cons.prems(3) have "lnd sent (suggestion_request s) = Inl err" by simp
    with 0 show ?thesis by simp
  next
    case (Suc m)
    from Cons.prems(2) Suc have h: "lnd sent (suggestion_request s) = Inr ()"
      by (metis append_Nil2 list.simps(8) nth_Cons_0 take_0 zero_less_Suc)
    have m: "m < length ss" using Cons.prems(1) Suc by simp
    have a: "\<forall>j<m. lnd ((sent @ [suggestion_request s]) @ map suggestion_request (take j ss))
          (suggestion_request (ss ! j)) = Inr ()"
    proof (intro allI impI)
      fix j assume "j < m"
      then have "Suc j < k" using Suc by simp
      with Cons.prems(2) have "lnd (sent @ map suggestion_request (take (Suc j) (s # ss)))
          (suggestion_request ((s # ss) ! Suc j)) = Inr ()" by blast
      then show "lnd ((sent @ [suggestion_request s]) @ map suggestion_request (take j ss))
          (suggestion_request (ss ! j)) = Inr ()" by simp
    qed
    have b: "lnd ((sent @ [suggestion_request s]) @ map suggestion_request (take m ss))
          (suggestion_request (ss ! m)) = Inl err"
      using Cons.prems(3) Suc by simp
    from Cons.IH [OF m a b] h Suc show ?thesis by simp
  qed
qed

text \<open>
  Claim C2, as written: with \<open>applySuggestions\<close> enabled, a failed per-channel update
  is collected and the batch goes on with the remaining channels. Against a node that
  rejects the update of the first of two channels, the operation ends with the error
  and the update of the second channel is never sent.
\<close>

theorem fee_apply_counterexample:
  "fst (autoFeeSuggestion rejecting_node 500 100 10 1000 True [rich_channel, poor_channel])
     = Inl (LndFailure ''LND API error (500): channel not found'')
   \<and> map pq_chan_point
       (snd (autoFeeSuggestion rejecting_node 500 100 10 1000 True [rich_channel, poor_channel]))
     = [Some \<lparr> funding_txid_str = ''aa11'', output_index = Some 0 \<rparr>]
   \<and> suggestion_request (suggest_fee 500 100 10 1000 poor_channel)
       \<notin> set (snd (autoFeeSuggestion rejecting_node 500 100 10 1000 True
                     [rich_channel, poor_channel]))"
  by code_simp

text \<open>
  Claim C2, amended: with \<open>applySuggestions\<close> enabled the updates are sent one by one
  in channel order, and the first update the node rejects ends the operation with that
  error: the updates sent are those of the channels up to and including the rejected
  one, no update is sent for the remaining channels, and no failure is collected per
  item. The updates accepted before it stay applied: nothing is sent to undo them. When
  the node accepts every update, all are sent and the report is returned.
\<close>

theorem fee_apply_stops_at_first_failure:
  "(k < length chans
     \<and> (\<forall>j<k. lnd (take j (fee_requests lowFee balFee highFee autoBase chans))
                  (fee_requests lowFee balFee highFee autoBase chans ! j) = Inr ())
     \<and> lnd (take k (fee_requests lowFee balFee highFee autoBase chans))
            (fee_requests lowFee balFee highFee autoBase chans ! k) = Inl err
    \<longrightarrow> autoFeeSuggestion lnd lowFee balFee highFee autoBase True chans
          = (Inl err, take (Suc k) (fee_requests lowFee balFee highFee autoBase chans)))
   \<and> ((\<forall>j<length chans.
          lnd (take j (fee_requests lowFee balFee highFee autoBase chans))
              (fee_requests lowFee balFee highFee autoBase chans ! j) = Inr ())
    \<longrightarrow> autoFeeSuggestion lnd lowFee balFee highFee autoBase True chans
          = (Inr \<lparr> fr_total_channels = length chans, fr_applied = True,
                   fr_suggestions = map (suggest_fee lowFee balFee highFee autoBase) chans \<rparr>,
             fee_requests lowFee balFee highFee autoBase chans))
   \<and> length (fee_requests lowFee balFee highFee autoBase chans) = length chans"
proof -
  let ?ss = "map (suggest_fee lowFee balFee highFee autoBase) chans"
  let ?rq = "fee_requests lowFee balFee highFee autoBase chans"
  have tk: "take j ?rq = [] @ map suggestion_request (take j ?ss)" for j
    by (simp add: fee_requests_def take_map)
  have nt: "?rq ! j = suggestion_request (?ss ! j)" if "j < length chans" for j
    using that by (simp add: fee_requests_def)
  have len: "length ?rq = length chans"
    by (simp add: fee_requests_def)
  have fail: "autoFeeSuggestion lnd lowFee balFee highFee autoBase True chans
          = (Inl err, take (Suc k) ?rq)"
    if h1: "k < length chans"
      and h2: "\<forall>j<k. lnd (take j ?rq) (?rq ! j) = Inr ()"
      and h3: "lnd (take k ?rq) (?rq ! k) = Inl err"
  proof -
    have 1: "k < length ?ss" using h1 by simp
    have 2: "\<forall>j<k. lnd ([] @ map suggestion_request (take j ?ss)) (suggestion_request (?ss ! j)) = Inr ()"
    proof (intro allI impI)
      fix j assume j: "j < k"
      with h2 have "lnd (take j ?rq) (?rq ! j) = Inr ()" by blast
      moreover from j h1 have "j < length chans" by simp
      ultimately show "lnd ([] @ map suggestion_request (take j ?ss)) (suggestion_request (?ss ! j)) = Inr ()"
        by (simp only: tk nt)
    qed
    from h3 have 3: "lnd ([] @ map suggestion_request (take k ?ss)) (suggestion_request (?ss ! k)) = Inl err"
      by (simp only: tk nt [OF h1])
    have "apply_suggestions lnd ?ss [] = (Inl err, take (Suc k) ?rq)"
      using apply_first_failure [OF 1 2 3] by (simp only: tk)
    then show ?thesis
      by (simp add: autoFeeSuggestion_def Let_def)
  qed
  have succeed: "autoFeeSuggestion lnd lowFee balFee highFee autoBase True chans
          = (Inr \<lparr> fr_total_channels = length chans, fr_applied = True, fr_suggestions = ?ss \<rparr>, ?rq)"
    if h: "\<forall>j<length chans. lnd (take j ?rq) (?rq ! j) = Inr ()"
  proof -
    have a: "\<forall>j<length ?ss. lnd ([] @ map suggestion_request (take j ?ss)) (suggestion_request (?ss ! j)) = Inr ()"
    proof (intro allI impI)
      fix j assume "j < length ?ss"
      then have j: "j < length chans" by simp
      with h have "lnd (take j ?rq) (?rq ! j) = Inr ()" by blast
      then show "lnd ([] @ map suggestion_request (take j ?ss)) (suggestion_request (?ss ! j)) = Inr ()"
        by (simp only: tk nt [OF j])
    qed
    have "apply_suggestions lnd ?ss [] = (Inr (), ?rq)"
      using apply_all_accepted [OF a] by (simp add: fee_requests_def)
    then show ?thesis
      by (simp add: autoFeeSuggestion_def Let_def)
  qed
  from fail succeed len show ?thesis by blast
qed

theorem fee_apply_stops_at_first_failure_witness:
  "(0 :: nat) < length [rich_channel, poor_channel]
   \<and> rejecting_node [] (fee_requests 500 100 10 1000 [rich_channel, poor_channel] ! 0)
       = Inl (LndFailure ''LND API error (500): channel not found'')
   \<and> autoFeeSuggestion rejecting_node 500 100 10 1000 True [rich_channel, poor_channel]
       = (Inl (LndFailure ''LND API error (500): channel not found''),
          take 1 (fee_requests 500 100 10 1000 [rich_channel, poor_channel]))"
proof -
  have r: "rejecting_node [] (fee_requests 500 100 10 1000 [rich_channel, poor_channel] ! 0)
       = Inl (LndFailure ''LND API error (500): channel not found'')"
    by code_simp
  from fee_apply_stops_at_first_failure [of 0 "[rich_channel, poor_channel]" rejecting_node
      500 100 10 1000 "LndFailure ''LND API error (500): channel not found''"] r
  show ?thesis by simp
qed

section \<open>Results: updating the minimum HTLC\<close>








section \<open>Results: lease ids of the wallet operations\<close>












end
